theory Spec2Isabelle
  imports Main "HOL-Library.Sublist"
begin

section \<open>Strings\<close>

text \<open>
  Python strings are modelled as \<^typ>\<open>string\<close>, lists of 8-bit characters. Case folding
  acts on the ASCII letters, which is what \<^verbatim>\<open>str.lower\<close> does on every character
  that occurs in the literals the crawler compares against.
\<close>

definition upper_letters :: string where
  "upper_letters = ''ABCDEFGHIJKLMNOPQRSTUVWXYZ''"

definition lower_letters :: string where
  "lower_letters = ''abcdefghijklmnopqrstuvwxyz''"

definition digit_chars :: string where
  "digit_chars = ''0123456789''"

definition lower_char :: "char \<Rightarrow> char" where
  "lower_char c = (case map_of (zip upper_letters lower_letters) c of Some d \<Rightarrow> d | None \<Rightarrow> c)"

definition lower :: "string \<Rightarrow> string" where
  "lower s = map lower_char s"

text \<open>\<^verbatim>\<open>s.endswith(suf)\<close> and \<^verbatim>\<open>sub in s\<close>.\<close>

definition endswith :: "string \<Rightarrow> string \<Rightarrow> bool" where
  "endswith s suf = suffix suf s"

definition contains :: "string \<Rightarrow> string \<Rightarrow> bool" where
  "contains sub s = sublist sub s"

text \<open>\<^verbatim>\<open>s.split(c)[0]\<close> and the remainder after the first \<^verbatim>\<open>c\<close>.\<close>

definition before :: "char \<Rightarrow> string \<Rightarrow> string" where
  "before c s = takeWhile (\<lambda>x. x \<noteq> c) s"

definition after :: "char \<Rightarrow> string \<Rightarrow> string" where
  "after c s = drop 1 (dropWhile (\<lambda>x. x \<noteq> c) s)"

text \<open>\<^verbatim>\<open>str.strip()\<close>: ASCII whitespace is removed at both ends.\<close>

definition is_space :: "char \<Rightarrow> bool" where
  "is_space c = (c \<in> set [CHR '' '', CHR 0x09, CHR 0x0A, CHR 0x0B, CHR 0x0C, CHR 0x0D,
                           CHR 0x1C, CHR 0x1D, CHR 0x1E, CHR 0x1F])"

definition strip :: "string \<Rightarrow> string" where
  "strip s = rev (dropWhile is_space (rev (dropWhile is_space s)))"

text \<open>\<^verbatim>\<open>str(i)\<close> for an integer, as the f-string of the fallback filename formats it.\<close>

definition digit_char :: "nat \<Rightarrow> char" where
  "digit_char d = digit_chars ! d"

fun digits_of :: "nat \<Rightarrow> string" where
  "digits_of n = (if n < 10 then [digit_char n] else digits_of (n div 10) @ [digit_char (n mod 10)])"

declare digits_of.simps [simp del]

definition str_int :: "int \<Rightarrow> string" where
  "str_int i = (if i < 0 then CHR ''-'' # digits_of (nat (- i)) else digits_of (nat i))"

section \<open>The library functions the crawler calls\<close>

subsection \<open>urllib.parse.urlparse\<close>

text \<open>
  The six components of \<^verbatim>\<open>urlparse\<close>, computed the way \<^verbatim>\<open>urlsplit\<close> and
  \<^verbatim>\<open>urlparse\<close> of the standard library compute them: leading C0 controls and spaces are
  dropped, tab, CR and LF are removed, a scheme is split off at the first colon when everything
  before it is a scheme character and the first character is a letter, the network location
  follows \<^verbatim>\<open>//\<close> up to the first of \<^verbatim>\<open>/ ? #\<close>, then fragment, query and
  (for the schemes that use them) the parameters of the last path segment are split off.
  The model covers the inputs on which the library returns; the library's \<^verbatim>\<open>ValueError\<close>
  for malformed bracketed hosts is not part of it.
\<close>

record parse_result =
  scheme :: string
  netloc :: string
  path :: string
  params :: string
  query :: string
  fragment :: string

definition scheme_chars :: string where
  "scheme_chars = lower_letters @ upper_letters @ digit_chars @ ''+-.''"

definition uses_params :: "string list" where
  "uses_params = ['''', ''ftp'', ''hdl'', ''prospero'', ''http'', ''imap'',
                  ''https'', ''shttp'', ''rtsp'', ''rtsps'', ''rtspu'', ''sip'',
                  ''sips'', ''mms'', ''sftp'', ''tel'']"

definition clean_url :: "string \<Rightarrow> string" where
  "clean_url url =
     filter (\<lambda>c. c \<notin> set [CHR 0x09, CHR 0x0D, CHR 0x0A])
       (dropWhile (\<lambda>c. (of_char c :: nat) \<le> 32) url)"

definition split_scheme :: "string \<Rightarrow> string \<times> string" where
  "split_scheme url =
     (let pre = before CHR '':'' url in
      if CHR '':'' \<in> set url \<and> pre \<noteq> [] \<and> hd pre \<in> set (lower_letters @ upper_letters)
         \<and> list_all (\<lambda>c. c \<in> set scheme_chars) pre
      then (lower pre, after CHR '':'' url)
      else ('''', url))"

definition is_netloc_delim :: "char \<Rightarrow> bool" where
  "is_netloc_delim c = (c \<in> set ''/?#'')"

definition splitnetloc :: "string \<Rightarrow> string \<times> string" where
  "splitnetloc url =
     (if take 2 url = ''//''
      then (takeWhile (\<lambda>c. \<not> is_netloc_delim c) (drop 2 url),
            dropWhile (\<lambda>c. \<not> is_netloc_delim c) (drop 2 url))
      else ('''', url))"

definition basename :: "string \<Rightarrow> string" where
  "basename p = rev (takeWhile (\<lambda>c. c \<noteq> CHR ''/'') (rev p))"

definition dirname_slash :: "string \<Rightarrow> string" where
  "dirname_slash p = rev (dropWhile (\<lambda>c. c \<noteq> CHR ''/'') (rev p))"

definition splitparams :: "string \<Rightarrow> string \<times> string" where
  "splitparams url =
     (let seg = basename url in
      if CHR '';'' \<in> set seg
      then (dirname_slash url @ before CHR '';'' seg, after CHR '';'' seg)
      else (url, ''''))"

definition urlparse :: "string \<Rightarrow> parse_result" where
  "urlparse url0 =
     (let (sch, url1) = split_scheme (clean_url url0);
          (loc, url2) = splitnetloc url1;
          (url3, frag) = (if CHR ''#'' \<in> set url2
                          then (before CHR ''#'' url2, after CHR ''#'' url2) else (url2, ''''));
          (url4, qry) = (if CHR ''?'' \<in> set url3
                         then (before CHR ''?'' url3, after CHR ''?'' url3) else (url3, ''''));
          (url5, prm) = (if sch \<in> set uses_params \<and> CHR '';'' \<in> set url4
                         then splitparams url4 else (url4, ''''))
      in \<lparr>scheme = sch, netloc = loc, path = url5, params = prm, query = qry, fragment = frag\<rparr>)"

subsection \<open>urllib.parse.unquote\<close>

text \<open>
  Percent-decoding: \<^verbatim>\<open>%XY\<close> with two hexadecimal digits becomes the byte \<^verbatim>\<open>0xXY\<close>;
  a percent sign not followed by two hexadecimal digits stays.
  (The library then reads the decoded bytes as UTF-8; on the bytes of a well-formed
  string that changes nothing.)
\<close>

definition hex_val :: "char \<Rightarrow> nat option" where
  "hex_val c = map_of (zip ''0123456789abcdefABCDEF''
                 [0, 1, 2, 3, 4, 5, 6, 7, 8, 9, 10, 11, 12, 13, 14, 15, 10, 11, 12, 13, 14, 15]) c"

fun unquote :: "string \<Rightarrow> string" where
  "unquote [] = []"
| "unquote (c # rest) =
     (if c = CHR ''%'' then
        (case rest of
           a # b # rest' \<Rightarrow>
             (case (hex_val a, hex_val b) of
                (Some h, Some l) \<Rightarrow> char_of (16 * h + l) # unquote rest'
              | _ \<Rightarrow> c # unquote rest)
         | _ \<Rightarrow> c # unquote rest)
      else c # unquote rest)"

section \<open>Configuration (crawler.py)\<close>

definition START_URL :: string where
  "START_URL = ''https://www.icmr.gov.in/standard-treatment-workflows-stws''"

definition DOMAIN :: string where
  "DOMAIN = ''icmr.gov.in''"

definition DOWNLOAD_DIR :: string where
  "DOWNLOAD_DIR = ''data/downloads''"

definition METADATA_DIR :: string where
  "METADATA_DIR = ''data/metadata''"

definition MIN_FILE_SIZE :: nat where
  "MIN_FILE_SIZE = 50 * 1024"

definition MAX_PAGES :: nat where
  "MAX_PAGES = 1000"

section \<open>URL classification (crawler.py)\<close>

definition is_valid_url :: "string \<Rightarrow> bool" where
  "is_valid_url url =
     (let parsed = urlparse url in
      if scheme parsed \<notin> set [''http'', ''https''] then False
      else endswith (netloc parsed) DOMAIN \<or> netloc parsed = '''')"

definition is_relevant_pdf :: "string \<Rightarrow> bool" where
  "is_relevant_pdf url =
     (let url_lower = lower url in
      if contains ''/stws/'' url_lower then True
      else let filename = lower (basename (path (urlparse url))) in
           if contains ''stw'' filename then True else False)"

section \<open>Filenames (utils.py)\<close>

definition illegal_chars :: string where
  "illegal_chars = [CHR 0x5C, CHR ''/'', CHR ''*'', CHR ''?'', CHR '':'', CHR 0x22,
                    CHR ''<'', CHR ''>'', CHR ''|'']"

text \<open>
  \<^verbatim>\<open>hash(url)\<close> is the interpreter's string hash. It is a function of the string and of the
  hash seed the interpreter process was started with, so it is a parameter \<open>h\<close> of the model:
  one run of the program has one \<open>h\<close>.
\<close>

definition sanitize_filename :: "(string \<Rightarrow> int) \<Rightarrow> string \<Rightarrow> string" where
  "sanitize_filename h url =
     (let parsed = urlparse url;
          path' = unquote (path parsed);
          filename = basename path';
          filename = filter (\<lambda>c. c \<notin> set illegal_chars) filename;
          filename = (if \<not> endswith (lower filename) ''.pdf'' then filename @ ''.pdf'' else filename)
      in if filename = [] \<or> filename = ''.pdf''
         then ''document_'' @ str_int (h url) @ ''.pdf''
         else filename)"

text \<open>\<^verbatim>\<open>os.path.join\<close>, and the root that \<^verbatim>\<open>os.path.splitext\<close> returns first.\<close>

definition path_join :: "string \<Rightarrow> string \<Rightarrow> string" where
  "path_join a b =
     (if b \<noteq> [] \<and> hd b = CHR ''/'' then b
      else if a = [] \<or> last a = CHR ''/'' then a @ b
      else a @ ''/'' @ b)"

definition splitext_root :: "string \<Rightarrow> string" where
  "splitext_root p =
     (let base = basename p; stem = rev (after CHR ''.'' (rev base)) in
      if CHR ''.'' \<in> set base \<and> list_ex (\<lambda>c. c \<noteq> CHR ''.'') stem
      then dirname_slash p @ stem
      else p)"

record metadata =
  source_authority :: string
  document_type :: string
  original_url :: string
  local_file_path :: string
  download_timestamp :: string

text \<open>
  \<^verbatim>\<open>generate_metadata\<close> builds the record and the path of the JSON file it is dumped
  to; the caller's state transformer performs the write. The timestamp is what
  \<^verbatim>\<open>datetime.now().isoformat()\<close> returns at that moment.
\<close>

definition generate_metadata :: "string \<Rightarrow> string \<Rightarrow> string \<Rightarrow> string \<Rightarrow> string \<times> metadata" where
  "generate_metadata timestamp url local_path output_dir =
     (let md = \<lparr>source_authority = ''ICMR'',
                 document_type = ''Standard Treatment Workflow'',
                 original_url = url,
                 local_file_path = local_path,
                 download_timestamp = timestamp\<rparr>;
          filename = basename local_path;
          json_filename = splitext_root filename @ ''.json'';
          json_path = path_join output_dir json_filename
      in (json_path, md))"

section \<open>The environment of a run\<close>

text \<open>
  Exceptions are values. Everything the two \<^verbatim>\<open>try\<close> blocks of the crawler can
  catch is an \<open>error\<close>.
\<close>

datatype error = RequestException | ValueError | ParserError

type_synonym bytes = "char list"

text \<open>
  What the crawler reads from a response: the status, the two headers, the chunks that
  \<^verbatim>\<open>iter_content\<close> yields (or the exception it raises), and the \<^verbatim>\<open>href\<close>
  values of the anchors that \<^verbatim>\<open>BeautifulSoup(...).find_all("a", href=True)\<close> returns,
  in document order (or the exception the parser raises). Both are finite lists.
\<close>

record response =
  status_code :: int
  content_type :: "string option"
  content_length :: "string option"
  iter_content :: "error + bytes list"
  hrefs :: "error + string list"

text \<open>
  The world outside the program: the answer to the \<open>k\<close>-th request of the session (so the
  same URL may be answered differently each time), \<^verbatim>\<open>urljoin\<close>, the string hash of
  this interpreter process, and the clock.
\<close>

record env =
  session_get :: "nat \<Rightarrow> string \<Rightarrow> error + response"
  urljoin :: "string \<Rightarrow> string \<Rightarrow> error + string"
  py_hash :: "string \<Rightarrow> int"
  now :: "nat \<Rightarrow> string"

text \<open>
  \<^verbatim>\<open>int(s)\<close> on a header value: surrounding whitespace, an optional sign, decimal digits
  with single underscores between them; anything else raises \<^verbatim>\<open>ValueError\<close> (\<open>None\<close>).
\<close>

definition is_digit :: "char \<Rightarrow> bool" where
  "is_digit c = (c \<in> set digit_chars)"

definition digit_val :: "char \<Rightarrow> nat" where
  "digit_val c = (case map_of (zip digit_chars [0, 1, 2, 3, 4, 5, 6, 7, 8, 9]) c of
                    Some d \<Rightarrow> d | None \<Rightarrow> 0)"

fun well_grouped :: "string \<Rightarrow> bool" where
  "well_grouped [] = False"
| "well_grouped [c] = is_digit c"
| "well_grouped (c # d # rest) =
     (is_digit c \<and> (if d = CHR ''_'' then well_grouped rest else well_grouped (d # rest)))"

definition py_int :: "string \<Rightarrow> int option" where
  "py_int s0 =
     (let s = strip s0;
          (neg, ds) = (case s of
                         c # r \<Rightarrow> if c = CHR ''-'' then (True, r)
                                  else if c = CHR ''+'' then (False, r) else (False, s)
                       | [] \<Rightarrow> (False, s))
      in if well_grouped ds
         then (let n = int (foldl (\<lambda>acc c. 10 * acc + digit_val c) 0 (filter is_digit ds))
               in Some (if neg then - n else n))
         else None)"

section \<open>The crawler state\<close>

datatype file_content = PdfFile bytes | JsonFile metadata

text \<open>
  \<open>visited\<close>, \<open>queue\<close> and \<open>pages_crawled\<close> are the variables of the crawler;
  \<open>requests\<close> counts the calls of \<^verbatim>\<open>session.get\<close>, \<open>files\<close> is the content of the two
  output directories. The remaining fields are history: the URLs in the order they were
  put into the queue and taken from it, added to \<open>visited\<close>, handed to
  \<^verbatim>\<open>process_pdf\<close>, parsed as pages, and the files in the order they were written.
\<close>

record state =
  visited :: "string set"
  queue :: "string list"
  pages_crawled :: nat
  requests :: nat
  files :: "string \<rightharpoonup> file_content"
  enqueued :: "string list"
  dequeued :: "string list"
  visit_log :: "string list"
  pdf_calls :: "string list"
  page_calls :: "string list"
  writes :: "(string \<times> file_content) list"

definition init :: state where
  "init = \<lparr>visited = {}, queue = [START_URL], pages_crawled = 0, requests = 0,
           files = Map.empty, enqueued = [START_URL], dequeued = [], visit_log = [],
           pdf_calls = [], page_calls = [], writes = []\<rparr>"

text \<open>
  The output directories are the external collaborator of the specification: a write stores
  the content under the path and replaces what was there, as \<^verbatim>\<open>open(path, "wb")\<close> and
  \<^verbatim>\<open>open(path, "w")\<close> do.
\<close>

definition write_file :: "string \<Rightarrow> file_content \<Rightarrow> state \<Rightarrow> state" where
  "write_file p c s = s\<lparr>files := (files s)(p \<mapsto> c), writes := writes s @ [(p, c)]\<rparr>"

definition visit :: "string \<Rightarrow> state \<Rightarrow> state" where
  "visit url s = s\<lparr>visited := insert url (visited s), visit_log := visit_log s @ [url]\<rparr>"

definition enqueue :: "string \<Rightarrow> state \<Rightarrow> state" where
  "enqueue url s = s\<lparr>queue := queue s @ [url], enqueued := enqueued s @ [url]\<rparr>"

definition header_or_empty :: "string option \<Rightarrow> string" where
  "header_or_empty h = (case h of None \<Rightarrow> [] | Some v \<Rightarrow> v)"

section \<open>process\_pdf (crawler.py)\<close>

text \<open>
  Line 91, \<^verbatim>\<open>content_length and int(content_length) < MIN_FILE_SIZE\<close>: an absent or empty
  header skips the test, a header that is no integer raises.
\<close>

definition too_small :: "string option \<Rightarrow> error + bool" where
  "too_small cl =
     (case cl of
        None \<Rightarrow> Inr False
      | Some v \<Rightarrow>
          if v = [] then Inr False
          else (case py_int v of
                  None \<Rightarrow> Inl ValueError
                | Some n \<Rightarrow> Inr (n < int MIN_FILE_SIZE)))"

definition save_pdf :: "env \<Rightarrow> nat \<Rightarrow> string \<Rightarrow> bytes \<Rightarrow> state \<Rightarrow> state" where
  "save_pdf env k url content s =
     (let filename = sanitize_filename (py_hash env) url;
          local_path = path_join DOWNLOAD_DIR filename;
          s1 = write_file local_path (PdfFile content) s;
          (json_path, md) = generate_metadata (now env k) url local_path METADATA_DIR
      in write_file json_path (JsonFile md) s1)"

definition process_pdf :: "env \<Rightarrow> string \<Rightarrow> state \<Rightarrow> state" where
  "process_pdf env url s0 =
     (let s = s0\<lparr>requests := requests s0 + 1, pdf_calls := pdf_calls s0 @ [url]\<rparr> in
      case session_get env (requests s0) url of
        Inl e \<Rightarrow> s
      | Inr response \<Rightarrow>
          if status_code response \<noteq> 200 then s
          else if \<not> contains ''application/pdf'' (lower (header_or_empty (content_type response)))
          then s
          else if \<not> is_relevant_pdf url then s
          else (case too_small (content_length response) of
                  Inl e \<Rightarrow> s
                | Inr True \<Rightarrow> s
                | Inr False \<Rightarrow>
                    (case iter_content response of
                       Inl e \<Rightarrow> s
                     | Inr chunks \<Rightarrow>
                         (let content = concat chunks in
                          if length content < MIN_FILE_SIZE then s
                          else save_pdf env (requests s0) url content s))))"

section \<open>crawl (crawler.py)\<close>

definition is_promising :: "string \<Rightarrow> bool" where
  "is_promising full_url =
     (contains ''standard-treatment-workflows'' full_url \<or> contains ''/stw'' full_url
      \<or> contains ''/STWs/'' full_url \<or> contains ''guidelines'' full_url)"

text \<open>One pass of the loop over the anchors; \<open>Inl\<close> when \<^verbatim>\<open>urljoin\<close> raises.\<close>

definition add_link :: "env \<Rightarrow> string \<Rightarrow> string \<Rightarrow> state \<Rightarrow> error + state" where
  "add_link env url href0 s =
     (let href = strip href0 in
      case urljoin env url href of
        Inl e \<Rightarrow> Inl e
      | Inr joined \<Rightarrow>
          (let full_url = before CHR ''#'' joined in
           if \<not> is_valid_url full_url then Inr s
           else if endswith (lower full_url) ''.pdf''
           then (if full_url \<notin> visited s then Inr (enqueue full_url s) else Inr s)
           else if full_url \<notin> visited s \<and> is_promising full_url
           then Inr (enqueue full_url s)
           else Inr s))"

text \<open>
  The loop over the anchors. An exception leaves the loop; the \<^verbatim>\<open>except\<close> clause of
  \<^verbatim>\<open>crawl\<close> catches it, and what was appended before stays in the queue.
\<close>

fun add_links :: "env \<Rightarrow> string \<Rightarrow> string list \<Rightarrow> state \<Rightarrow> state" where
  "add_links env url [] s = s"
| "add_links env url (href # rest) s =
     (case add_link env url href s of
        Inl e \<Rightarrow> s
      | Inr s' \<Rightarrow> add_links env url rest s')"

text \<open>The body of the \<^verbatim>\<open>while\<close> loop.\<close>

definition crawl_step :: "env \<Rightarrow> state \<Rightarrow> state" where
  "crawl_step env s0 =
     (case queue s0 of
        [] \<Rightarrow> s0
      | url # rest \<Rightarrow>
          (let s = s0\<lparr>queue := rest, dequeued := dequeued s0 @ [url]\<rparr> in
           if endswith (lower url) ''.pdf''
           then (if url \<notin> visited s then process_pdf env url (visit url s) else s)
           else if url \<in> visited s then s
           else
             (let s1 = visit url s;
                  s2 = s1\<lparr>requests := requests s1 + 1\<rparr> in
              case session_get env (requests s1) url of
                Inl e \<Rightarrow> s2
              | Inr response \<Rightarrow>
                  if status_code response \<noteq> 200 then s2
                  else
                    (let ct = lower (header_or_empty (content_type response)) in
                     if contains ''application/pdf'' ct then process_pdf env url s2
                     else if contains ''text/html'' ct
                     then
                       (let s3 = s2\<lparr>pages_crawled := pages_crawled s2 + 1,
                                     page_calls := page_calls s2 @ [url]\<rparr> in
                        case hrefs response of
                          Inl e \<Rightarrow> s3
                        | Inr links \<Rightarrow> add_links env url links s3)
                     else s2))))"

text \<open>The condition of the \<^verbatim>\<open>while\<close> loop, and the loop.\<close>

definition running :: "state \<Rightarrow> bool" where
  "running s = (queue s \<noteq> [] \<and> pages_crawled s < MAX_PAGES)"

function crawl :: "env \<Rightarrow> state \<Rightarrow> state" where
  "crawl env s = (if running s then crawl env (crawl_step env s) else s)"
  by pat_completeness auto

section \<open>What the specification says, in its own words\<close>





definition json_path :: "env \<Rightarrow> string \<Rightarrow> string" where
  "json_path env url =
     path_join METADATA_DIR (splitext_root (sanitize_filename (py_hash env) url) @ ''.json'')"

text \<open>
  The basename that \<^verbatim>\<open>sanitize_filename\<close> works on after line 16, and the condition under
  which line 23 replaces the name by the fallback.
\<close>

definition cleaned_basename :: "string \<Rightarrow> string" where
  "cleaned_basename url =
     filter (\<lambda>c. c \<notin> set illegal_chars) (basename (unquote (path (urlparse url))))"

definition uses_fallback :: "string \<Rightarrow> bool" where
  "uses_fallback url = (cleaned_basename url = [] \<or> cleaned_basename url = ''.pdf'')"


text \<open>
  The host condition of \<open>InDomain\<close> in the specification's words: the host is the authority
  domain, or a subdomain of it, or empty.
\<close>

definition host_in_domain :: "string \<Rightarrow> bool" where
  "host_in_domain host = (host = DOMAIN \<or> endswith host (''.'' @ DOMAIN) \<or> host = [])"

text \<open>
  \<open>IsRelevantDocument\<close> in the specification's words: the path contains the segment, or the
  filename component contains the keyword, both case-insensitively.
\<close>

definition relevant_by_path :: "string \<Rightarrow> bool" where
  "relevant_by_path url =
     (contains ''/stws/'' (lower (path (urlparse url)))
      \<or> contains ''stw'' (lower (basename (path (urlparse url)))))"



section \<open>Invariants of the loop\<close>

text \<open>What the Page Processor promises of a URL it appends: in the domain, and no fragment.\<close>

definition link_ok :: "string \<Rightarrow> bool" where
  "link_ok u = (is_valid_url u \<and> CHR ''#'' \<notin> set u)"


definition once_inv :: "state \<Rightarrow> bool" where
  "once_inv s =
     (distinct (visit_log s) \<and> set (visit_log s) = visited s
      \<and> distinct (pdf_calls s) \<and> set (pdf_calls s) \<subseteq> visited s
      \<and> distinct (page_calls s) \<and> set (page_calls s) \<subseteq> visited s)"

definition fifo_inv :: "state \<Rightarrow> bool" where
  "fifo_inv s = (dequeued s @ queue s = enqueued s)"

definition links_inv :: "state \<Rightarrow> bool" where
  "links_inv s = (\<forall>u\<in>set (enqueued s). link_ok u)"

definition count_inv :: "state \<Rightarrow> bool" where
  "count_inv s = (pages_crawled s = length (page_calls s) \<and> pages_crawled s \<le> MAX_PAGES)"

section \<open>Two concrete runs\<close>

text \<open>
  A small site. The start page links to two documents whose paths end in the same segment,
  to the second one with a fragment, to the first one a second time, and to a page of another
  site. Both documents are served as PDF with 51200 bytes; all links are absolute, so
  \<^verbatim>\<open>urljoin\<close> returns them as they are.
\<close>

definition demo_a :: string where
  "demo_a = ''https://www.icmr.gov.in/STWs/a/stw.pdf''"

definition demo_b :: string where
  "demo_b = ''https://www.icmr.gov.in/STWs/b/stw.pdf''"

definition demo_out :: string where
  "demo_out = ''https://example.org/stw/page''"

definition demo_page :: response where
  "demo_page = \<lparr>status_code = 200, content_type = Some ''text/html; charset=utf-8'',
      content_length = None, iter_content = Inr [],
      hrefs = Inr [demo_a, demo_b @ ''#top'', demo_a, demo_out]\<rparr>"

definition demo_pdf :: "char \<Rightarrow> response" where
  "demo_pdf c = \<lparr>status_code = 200, content_type = Some ''Application/PDF'',
      content_length = Some ''51200'', iter_content = Inr [replicate 51200 c],
      hrefs = Inr []\<rparr>"

definition demo_env :: env where
  "demo_env = \<lparr>session_get = (\<lambda>k url. if url = START_URL then Inr demo_page
                                       else if url = demo_a then Inr (demo_pdf CHR ''a'')
                                       else Inr (demo_pdf CHR ''b'')),
               urljoin = (\<lambda>base href. Inr href),
               py_hash = (\<lambda>url. 0),
               now = (\<lambda>k. ''2024-01-01T00:00:00'')\<rparr>"

definition demo_md :: "string \<Rightarrow> metadata" where
  "demo_md url = \<lparr>source_authority = ''ICMR'', document_type = ''Standard Treatment Workflow'',
      original_url = url, local_file_path = ''data/downloads/stw.pdf'',
      download_timestamp = ''2024-01-01T00:00:00''\<rparr>"

text \<open>The state in which the crawl of that site ends.\<close>

definition demo_final :: state where
  "demo_final =
     \<lparr>visited = {START_URL, demo_a, demo_b}, queue = [], pages_crawled = 1, requests = 3,
      files = [''data/downloads/stw.pdf'' \<mapsto> PdfFile (replicate 51200 CHR ''b''),
               ''data/metadata/stw.json'' \<mapsto> JsonFile (demo_md demo_b)],
      enqueued = [START_URL, demo_a, demo_b, demo_a],
      dequeued = [START_URL, demo_a, demo_b, demo_a],
      visit_log = [START_URL, demo_a, demo_b],
      pdf_calls = [demo_a, demo_b], page_calls = [START_URL],
      writes = [(''data/downloads/stw.pdf'', PdfFile (replicate 51200 CHR ''a'')),
                (''data/metadata/stw.json'', JsonFile (demo_md demo_a)),
                (''data/downloads/stw.pdf'', PdfFile (replicate 51200 CHR ''b'')),
                (''data/metadata/stw.json'', JsonFile (demo_md demo_b))]\<rparr>"

text \<open>A network on which every request fails.\<close>

definition failing_env :: env where
  "failing_env = \<lparr>session_get = (\<lambda>k url. Inl RequestException),
                  urljoin = (\<lambda>base href. Inl ValueError),
                  py_hash = (\<lambda>url. 0),
                  now = (\<lambda>k. [])\<rparr>"

section \<open>Frame properties and termination\<close>

lemma save_pdf_frame:
  "queue (save_pdf env k url c s) = queue s"
  "pages_crawled (save_pdf env k url c s) = pages_crawled s"
  "visited (save_pdf env k url c s) = visited s"
  "requests (save_pdf env k url c s) = requests s"
  "enqueued (save_pdf env k url c s) = enqueued s"
  "dequeued (save_pdf env k url c s) = dequeued s"
  "visit_log (save_pdf env k url c s) = visit_log s"
  "pdf_calls (save_pdf env k url c s) = pdf_calls s"
  "page_calls (save_pdf env k url c s) = page_calls s"
  by (simp_all add: save_pdf_def write_file_def Let_def split: prod.splits)

lemma process_pdf_frame:
  "queue (process_pdf env url s) = queue s"
  "pages_crawled (process_pdf env url s) = pages_crawled s"
  "visited (process_pdf env url s) = visited s"
  "enqueued (process_pdf env url s) = enqueued s"
  "dequeued (process_pdf env url s) = dequeued s"
  "visit_log (process_pdf env url s) = visit_log s"
  "page_calls (process_pdf env url s) = page_calls s"
  "pdf_calls (process_pdf env url s) = pdf_calls s @ [url]"
  "requests (process_pdf env url s) = requests s + 1"
  by (simp_all add: process_pdf_def save_pdf_frame Let_def split: sum.splits bool.splits)

lemma add_link_frame:
  assumes "add_link env url href s = Inr s'"
  shows "pages_crawled s' = pages_crawled s" "visited s' = visited s"
    "dequeued s' = dequeued s" "visit_log s' = visit_log s"
    "pdf_calls s' = pdf_calls s" "page_calls s' = page_calls s"
    "requests s' = requests s" "files s' = files s" "writes s' = writes s"
  using assms
  by (auto simp: add_link_def enqueue_def Let_def split: sum.splits if_splits)

lemma add_links_frame:
  "pages_crawled (add_links env url hs s) = pages_crawled s"
  "visited (add_links env url hs s) = visited s"
  "dequeued (add_links env url hs s) = dequeued s"
  "visit_log (add_links env url hs s) = visit_log s"
  "pdf_calls (add_links env url hs s) = pdf_calls s"
  "page_calls (add_links env url hs s) = page_calls s"
  "requests (add_links env url hs s) = requests s"
  "files (add_links env url hs s) = files s"
  "writes (add_links env url hs s) = writes s"
  by (induction hs arbitrary: s; simp split: sum.splits; metis add_link_frame)+

text \<open>
  Every pass of the loop either parses one more page or leaves the page counter alone and
  shortens the queue: only the HTML branch appends to the queue, and it counts a page first.
\<close>

lemma crawl_step_measure:
  assumes "running s"
  shows "(pages_crawled (crawl_step env s) = pages_crawled s + 1)
       \<or> (pages_crawled (crawl_step env s) = pages_crawled s
          \<and> length (queue (crawl_step env s)) < length (queue s))"
proof -
  from assms obtain url rest where q: "queue s = url # rest"
    by (cases "queue s") (auto simp: running_def)
  show ?thesis
    by (simp add: q crawl_step_def Let_def visit_def process_pdf_frame add_links_frame
           split: sum.splits)
qed


termination crawl
proof (relation "measures [\<lambda>(env, s). MAX_PAGES - pages_crawled s, \<lambda>(env, s). length (queue s)]")
  show "wf (measures [\<lambda>(env, s). MAX_PAGES - pages_crawled s, \<lambda>(env, s). length (queue s)])"
    by simp
next
  fix env :: env and s :: state
  assume r: "running s"
  then have lt: "pages_crawled s < MAX_PAGES"
    by (simp add: running_def)
  from crawl_step_measure [OF r, of env]
  have "MAX_PAGES - pages_crawled (crawl_step env s) < MAX_PAGES - pages_crawled s
      \<or> (MAX_PAGES - pages_crawled (crawl_step env s) = MAX_PAGES - pages_crawled s
         \<and> length (queue (crawl_step env s)) < length (queue s))"
    using lt by arith
  then show "((env, crawl_step env s), (env, s))
      \<in> measures [\<lambda>(env, s). MAX_PAGES - pages_crawled s, \<lambda>(env, s). length (queue s)]"
    by simp
qed

declare crawl.simps [simp del]

lemma crawl_unfold:
  "running s \<Longrightarrow> crawl env s = crawl env (crawl_step env s)"
  "\<not> running s \<Longrightarrow> crawl env s = s"
  by (subst crawl.simps, simp)+

text \<open>A property that holds at the start and that every pass of the loop keeps holds at the end.\<close>

lemma crawl_invariant:
  assumes "P s" and "\<And>t. P t \<Longrightarrow> running t \<Longrightarrow> P (crawl_step env t)"
  shows "P (crawl env s)"
  using assms
proof (induction env s rule: crawl.induct)
  case (1 env s)
  show ?case
  proof (cases "running s")
    case True
    have "P (crawl_step env s)"
      using "1.prems" True by blast
    then have "P (crawl env (crawl_step env s))"
      using "1.IH" [OF True] "1.prems"(2) by blast
    then show ?thesis
      by (simp only: crawl_unfold(1) [OF True])
  next
    case False
    show ?thesis
      using "1.prems"(1) by (simp only: crawl_unfold(2) [OF False])
  qed
qed

lemmas str_defs = upper_letters_def lower_letters_def digit_chars_def lower_char_def lower_def
  endswith_def contains_def before_def after_def scheme_chars_def uses_params_def clean_url_def
  split_scheme_def is_netloc_delim_def splitnetloc_def basename_def dirname_slash_def splitparams_def
  urlparse_def DOMAIN_def suffix_to_prefix sublist_Cons_right

section \<open>Decimal rendering and filenames\<close>

lemma digit_char_in: "d < 10 \<Longrightarrow> digit_char d \<in> set digit_chars"
  by (simp add: digit_char_def digit_chars_def nth_mem del: set_simps)

lemma digits_of_chars: "set (digits_of n) \<subseteq> set digit_chars"
proof (induction n rule: digits_of.induct)
  case (1 n)
  show ?case
  proof (cases "n < 10")
    case True
    then show ?thesis
      by (subst digits_of.simps) (simp add: digit_char_in)
  next
    case False
    then have "set (digits_of (n div 10)) \<subseteq> set digit_chars"
      using 1 by simp
    moreover have "digit_char (n mod 10) \<in> set digit_chars"
      by (rule digit_char_in) simp
    ultimately show ?thesis
      using False by (subst digits_of.simps) simp
  qed
qed

lemma digits_of_nonempty: "digits_of n \<noteq> []"
  by (subst digits_of.simps) simp

lemma digit_char_inj: "a < 10 \<Longrightarrow> b < 10 \<Longrightarrow> digit_char a = digit_char b \<Longrightarrow> a = b"
proof -
  assume a: "a < 10" and b: "b < 10" and e: "digit_char a = digit_char b"
  have d: "distinct digit_chars"
    by (simp add: digit_chars_def)
  have l: "length digit_chars = 10"
    by (simp add: digit_chars_def)
  show "a = b"
    using d l a b e nth_eq_iff_index_eq [of digit_chars a b] by (simp add: digit_char_def)
qed

lemma digits_of_inj: "digits_of m = digits_of n \<Longrightarrow> m = n"
proof (induction m arbitrary: n rule: digits_of.induct)
  case (1 m)
  show ?case
  proof (cases "m < 10")
    case m: True
    then have dm: "digits_of m = [digit_char m]"
      by (subst digits_of.simps) simp
    show ?thesis
    proof (cases "n < 10")
      case True
      then have "digits_of n = [digit_char n]"
        by (subst digits_of.simps) simp
      then show ?thesis
        using dm "1.prems" m True digit_char_inj by simp
    next
      case False
      then have "digits_of n = digits_of (n div 10) @ [digit_char (n mod 10)]"
        by (subst digits_of.simps) simp
      then show ?thesis
        using dm "1.prems" digits_of_nonempty [of "n div 10"] by simp
    qed
  next
    case m: False
    then have dm: "digits_of m = digits_of (m div 10) @ [digit_char (m mod 10)]"
      by (subst digits_of.simps) simp
    show ?thesis
    proof (cases "n < 10")
      case True
      then have "digits_of n = [digit_char n]"
        by (subst digits_of.simps) simp
      then show ?thesis
        using dm "1.prems" digits_of_nonempty [of "m div 10"] by simp
    next
      case False
      then have dn: "digits_of n = digits_of (n div 10) @ [digit_char (n mod 10)]"
        by (subst digits_of.simps) simp
      from dm dn "1.prems"
      have e1: "digits_of (m div 10) = digits_of (n div 10)"
        and e2: "digit_char (m mod 10) = digit_char (n mod 10)"
        by simp_all
      have "m div 10 = n div 10"
        using "1.IH" [OF m e1] .
      moreover have "m mod 10 = n mod 10"
        using e2 by (intro digit_char_inj) simp_all
      ultimately show ?thesis
        by (metis div_mult_mod_eq)
    qed
  qed
qed

lemma minus_not_digit: "CHR ''-'' \<notin> set (digits_of n)"
proof -
  have "CHR ''-'' \<notin> set digit_chars"
    by (simp add: digit_chars_def)
  then show ?thesis
    using digits_of_chars by blast
qed

lemma str_int_inj: "str_int i = str_int j \<Longrightarrow> i = j"
proof -
  assume e: "str_int i = str_int j"
  have hd_digit: "\<And>n. hd (digits_of n) \<noteq> CHR ''-''"
    using minus_not_digit digits_of_nonempty by (metis hd_in_set)
  show "i = j"
  proof (cases "i < 0")
    case i: True
    show ?thesis
    proof (cases "j < 0")
      case True
      with i e have "digits_of (nat (- i)) = digits_of (nat (- j))"
        by (simp add: str_int_def)
      then have "nat (- i) = nat (- j)"
        by (rule digits_of_inj)
      with i True show ?thesis by simp
    next
      case False
      with i e have "CHR ''-'' # digits_of (nat (- i)) = digits_of (nat j)"
        by (simp add: str_int_def)
      then have "hd (digits_of (nat j)) = CHR ''-''"
        by (metis list.sel(1))
      then show ?thesis
        using hd_digit by blast
    qed
  next
    case i: False
    show ?thesis
    proof (cases "j < 0")
      case True
      with i e have "digits_of (nat i) = CHR ''-'' # digits_of (nat (- j))"
        by (simp add: str_int_def)
      then have "hd (digits_of (nat i)) = CHR ''-''"
        by (metis list.sel(1))
      then show ?thesis
        using hd_digit by blast
    next
      case False
      with i e have "digits_of (nat i) = digits_of (nat j)"
        by (simp add: str_int_def)
      then have "nat i = nat j"
        by (rule digits_of_inj)
      with i False show ?thesis by simp
    qed
  qed
qed

lemma str_int_chars: "set (str_int i) \<subseteq> insert CHR ''-'' (set digit_chars)"
  using digits_of_chars by (auto simp: str_int_def)

lemma str_int_legal: "set (str_int i) \<inter> set illegal_chars = {}"
proof -
  have "insert CHR ''-'' (set digit_chars) \<inter> set illegal_chars = {}"
    by (simp add: digit_chars_def illegal_chars_def)
  then show ?thesis
    using str_int_chars [of i] by blast
qed

lemma lower_pdf: "lower (f @ ''.pdf'') = lower f @ ''.pdf''"
  by (simp add: lower_def lower_char_def upper_letters_def lower_letters_def)

lemma sanitize_filename_cases:
  "sanitize_filename h url =
     (if uses_fallback url then ''document_'' @ str_int (h url) @ ''.pdf''
      else if endswith (lower (cleaned_basename url)) ''.pdf'' then cleaned_basename url
      else cleaned_basename url @ ''.pdf'')"
  by (auto simp: sanitize_filename_def uses_fallback_def cleaned_basename_def Let_def endswith_def
        lower_def lower_char_def upper_letters_def lower_letters_def suffix_to_prefix)

lemma cleaned_basename_legal: "set (cleaned_basename url) \<inter> set illegal_chars = {}"
  by (auto simp: cleaned_basename_def)


section \<open>URL classification\<close>

text \<open>
  Claim C3 says that \<open>InDomain\<close> holds exactly when the scheme is http or https and the host
  is the authority domain \<^verbatim>\<open>icmr.gov.in\<close>, a subdomain of it, or empty. The code compares
  the end of the whole network location with the domain string, without a dot before it: the URL
  below has the scheme https and the host \<^verbatim>\<open>evilicmr.gov.in\<close>, which is neither the
  domain nor a subdomain of it nor empty, and \<^verbatim>\<open>is_valid_url\<close> accepts it.
\<close>

theorem is_valid_url_accepts_foreign_host:
  "is_valid_url ''https://evilicmr.gov.in/stws/x.pdf''
   \<and> scheme (urlparse ''https://evilicmr.gov.in/stws/x.pdf'') = ''https''
   \<and> netloc (urlparse ''https://evilicmr.gov.in/stws/x.pdf'') = ''evilicmr.gov.in''
   \<and> \<not> host_in_domain ''evilicmr.gov.in''"
  by (simp add: is_valid_url_def host_in_domain_def str_defs)

text \<open>
  In the other direction, a network location with a port does not end with the domain string,
  so a URL whose host is the authority domain itself is rejected.
\<close>

lemma is_valid_url_rejects_port:
  "\<not> is_valid_url ''https://icmr.gov.in:443/stws/x.pdf''
   \<and> netloc (urlparse ''https://icmr.gov.in:443/stws/x.pdf'') = ''icmr.gov.in:443''"
  by (simp add: is_valid_url_def str_defs)

text \<open>
  The part of the claim about schemes holds: a scheme other than http and https is rejected,
  whatever the host.
\<close>

lemma is_valid_url_scheme:
  "scheme (urlparse u) \<noteq> ''http'' \<Longrightarrow> scheme (urlparse u) \<noteq> ''https'' \<Longrightarrow> \<not> is_valid_url u"
  by (simp add: is_valid_url_def Let_def)

text \<open>
  Claim C7 says that \<open>IsRelevantDocument\<close> holds exactly when the path contains
  \<^verbatim>\<open>/stws/\<close> or the filename contains \<^verbatim>\<open>stw\<close>, case-insensitively. The code looks
  for \<^verbatim>\<open>/stws/\<close> in the whole URL string: a URL that has it only in its query is relevant
  for the code, and not by its path.
\<close>

theorem is_relevant_pdf_query_counterexample:
  "is_relevant_pdf ''https://x/misc/report.pdf?ref=/stws/''
   \<and> \<not> relevant_by_path ''https://x/misc/report.pdf?ref=/stws/''"
  by (simp add: is_relevant_pdf_def relevant_by_path_def str_defs)

text \<open>
  Claim C7 as amended: \<^verbatim>\<open>is_relevant_pdf\<close> holds exactly when the lower-cased URL string
  contains \<^verbatim>\<open>/stws/\<close> anywhere, or the lower-cased last segment of the URL's path contains
  \<^verbatim>\<open>stw\<close>; and the three examples of the specification come out as it says.
\<close>

theorem is_relevant_pdf_whole_url:
  "(is_relevant_pdf u \<longleftrightarrow>
      (\<exists>a b. lower u = a @ ''/stws/'' @ b)
      \<or> (\<exists>a b. lower (basename (path (urlparse u))) = a @ ''stw'' @ b))
   \<and> is_relevant_pdf ''https://x/stws/doc1.pdf''
   \<and> \<not> is_relevant_pdf ''https://x/misc/report.pdf''
   \<and> is_relevant_pdf ''https://x/misc/stw_report.pdf''"
proof -
  have "is_relevant_pdf u \<longleftrightarrow>
      (\<exists>a b. lower u = a @ ''/stws/'' @ b)
      \<or> (\<exists>a b. lower (basename (path (urlparse u))) = a @ ''stw'' @ b)"
    by (simp add: is_relevant_pdf_def contains_def sublist_def Let_def)
  moreover have "is_relevant_pdf ''https://x/stws/doc1.pdf''"
    by (simp add: is_relevant_pdf_def str_defs)
  moreover have "\<not> is_relevant_pdf ''https://x/misc/report.pdf''"
    by (simp add: is_relevant_pdf_def str_defs)
  moreover have "is_relevant_pdf ''https://x/misc/stw_report.pdf''"
    by (simp add: is_relevant_pdf_def str_defs)
  ultimately show ?thesis
    by blast
qed

text \<open>
  Claim C7 as amended, at a URL whose query carries the segment in upper case.
\<close>

theorem is_relevant_pdf_whole_url_witness:
  "is_relevant_pdf ''https://x/a.pdf?v=/STWS/1''
   \<and> lower ''https://x/a.pdf?v=/STWS/1'' = ''https://x/a.pdf?v='' @ ''/stws/'' @ ''1''
   \<and> path (urlparse ''https://x/a.pdf?v=/STWS/1'') = ''/a.pdf''"
proof -
  let ?u = "''https://x/a.pdf?v=/STWS/1''"
  have l: "lower ?u = ''https://x/a.pdf?v='' @ ''/stws/'' @ ''1''"
    by (simp add: str_defs)
  have p: "path (urlparse ?u) = ''/a.pdf''"
    by (simp add: str_defs)
  from l have ex: "\<exists>a b. lower ?u = a @ ''/stws/'' @ b"
    by (intro exI)
  have "is_relevant_pdf ?u"
    by (rule is_relevant_pdf_whole_url [of ?u, THEN conjunct1, THEN iffD2, OF disjI1, OF ex])
  with l p show ?thesis
    by (intro conjI)
qed

section \<open>Filenames\<close>

text \<open>
  Claim C9 says that the filename always has the suffix \<^verbatim>\<open>.pdf\<close>. Line 19 tests the
  lower-cased name, so a basename that ends in \<^verbatim>\<open>.PDF\<close> is kept as it is.
\<close>

theorem sanitize_filename_upper_case_counterexample:
  "sanitize_filename (\<lambda>u. 0) ''https://x/DOC.PDF'' = ''DOC.PDF''
   \<and> \<not> endswith (sanitize_filename (\<lambda>u. 0) ''https://x/DOC.PDF'') ''.pdf''"
  by (simp add: sanitize_filename_def illegal_chars_def str_defs)

text \<open>
  Claim C9 as amended: for every URL and every hash function the filename is not empty, ends
  with \<^verbatim>\<open>.pdf\<close> up to the case of its letters (and literally whenever the basename did not
  already end so), contains none of the nine characters of \<open>illegal_chars\<close> (backslash, slash, asterisk,
  question mark, colon, double quote, less-than, greater-than, bar), and is the
  fallback name when the path of the URL is empty.
\<close>

theorem sanitize_filename_safe:
  "sanitize_filename h url \<noteq> []
   \<and> endswith (lower (sanitize_filename h url)) ''.pdf''
   \<and> (\<not> endswith (lower (cleaned_basename url)) ''.pdf'' \<longrightarrow>
        endswith (sanitize_filename h url) ''.pdf'')
   \<and> set (sanitize_filename h url) \<inter> set illegal_chars = {}
   \<and> (path (urlparse url) = [] \<longrightarrow>
        sanitize_filename h url = ''document_'' @ str_int (h url) @ ''.pdf'')"
proof -
  let ?f = "sanitize_filename h url"
  have c: "?f = (if uses_fallback url then ''document_'' @ str_int (h url) @ ''.pdf''
      else if endswith (lower (cleaned_basename url)) ''.pdf'' then cleaned_basename url
      else cleaned_basename url @ ''.pdf'')"
    by (rule sanitize_filename_cases)
  have nonempty: "?f \<noteq> []"
    unfolding c by (simp add: uses_fallback_def)
  have "endswith (lower (''document_'' @ str_int (h url) @ ''.pdf'')) ''.pdf''"
    using lower_pdf [of "''document_'' @ str_int (h url)"] by (simp add: endswith_def suffix_def)
  moreover have "endswith (lower (cleaned_basename url @ ''.pdf'')) ''.pdf''"
    using lower_pdf [of "cleaned_basename url"] by (simp add: endswith_def suffix_def)
  ultimately have folded: "endswith (lower ?f) ''.pdf''"
    unfolding c by simp
  have literal: "\<not> endswith (lower (cleaned_basename url)) ''.pdf'' \<longrightarrow> endswith ?f ''.pdf''"
    unfolding c by (simp add: endswith_def suffix_def)
  have "set (''document_'' @ str_int (h url) @ ''.pdf'') \<inter> set illegal_chars = {}"
    using str_int_legal [of "h url"] by (auto simp: illegal_chars_def)
  moreover have "set (cleaned_basename url @ ''.pdf'') \<inter> set illegal_chars = {}"
    using cleaned_basename_legal [of url] by (auto simp: illegal_chars_def)
  ultimately have legal: "set ?f \<inter> set illegal_chars = {}"
    unfolding c using cleaned_basename_legal [of url] by simp
  have "path (urlparse url) = [] \<longrightarrow> uses_fallback url"
    by (simp add: uses_fallback_def cleaned_basename_def basename_def)
  then have empty: "path (urlparse url) = [] \<longrightarrow> ?f = ''document_'' @ str_int (h url) @ ''.pdf''"
    unfolding c by simp
  from nonempty folded literal legal empty show ?thesis
    by blast
qed

text \<open>
  Claim C9 as amended, at a URL with an empty path and at the URL of the specification's example
  (whose question mark starts the query, so the basename is \<^verbatim>\<open>a b\<close>).
\<close>

theorem sanitize_filename_safe_witness:
  "path (urlparse ''https://x'') = []
   \<and> sanitize_filename (\<lambda>u. 0) ''https://x'' = ''document_0.pdf''
   \<and> \<not> endswith (lower (cleaned_basename ''https://x/a b?.pdf'')) ''.pdf''
   \<and> sanitize_filename (\<lambda>u. 0) ''https://x/a b?.pdf'' = ''a b.pdf''
   \<and> endswith (sanitize_filename (\<lambda>u. 0) ''https://x/a b?.pdf'') ''.pdf''"
proof -
  have p: "path (urlparse ''https://x'') = []"
    by (simp add: str_defs)
  have z: "str_int 0 = ''0''"
    by (simp add: str_int_def digits_of.simps digit_char_def digit_chars_def)
  have n: "\<not> endswith (lower (cleaned_basename ''https://x/a b?.pdf'')) ''.pdf''"
    by (simp add: cleaned_basename_def illegal_chars_def str_defs)
  have v: "sanitize_filename (\<lambda>u. 0) ''https://x/a b?.pdf'' = ''a b.pdf''"
    by (simp add: sanitize_filename_def illegal_chars_def str_defs)
  from p z have "sanitize_filename (\<lambda>u. 0) ''https://x'' = ''document_0.pdf''"
    using sanitize_filename_safe [of "\<lambda>u. 0" "''https://x''"] by simp
  moreover from n have "endswith (sanitize_filename (\<lambda>u. 0) ''https://x/a b?.pdf'') ''.pdf''"
    using sanitize_filename_safe [of "\<lambda>u. 0" "''https://x/a b?.pdf''"] by blast
  ultimately show ?thesis
    using p n v by blast
qed

text \<open>
  Claim C10 says that two runs of the program over the same URL produce the same fallback
  filename. The fallback is built from \<^verbatim>\<open>hash(url)\<close>, and the string hash of the interpreter
  is salted per process: the two values below are the hashes of this URL in a CPython 3.11
  interpreter started with the hash seeds 1 and 2, and the two filenames differ.
\<close>

theorem fallback_varies_with_hash_counterexample:
  "uses_fallback ''https://www.icmr.gov.in''
   \<and> sanitize_filename (\<lambda>u. - 3460496857817998472) ''https://www.icmr.gov.in''
      \<noteq> sanitize_filename (\<lambda>u. 149936572385435233) ''https://www.icmr.gov.in''"
proof -
  have f: "uses_fallback ''https://www.icmr.gov.in''"
    by (simp add: uses_fallback_def cleaned_basename_def str_defs)
  have "str_int (- 3460496857817998472) \<noteq> str_int 149936572385435233"
    using str_int_inj [of "- 3460496857817998472" 149936572385435233] by auto
  with f show ?thesis
    by (simp add: sanitize_filename_cases)
qed

text \<open>
  Claim C10 as amended: when the fallback is used, the filename is \<^verbatim>\<open>document_\<close>, the
  decimal hash of the URL and \<^verbatim>\<open>.pdf\<close>, so two runs produce the same fallback filename
  exactly when their string hashes of the URL agree (within one process always); when the
  fallback is not used, the filename does not depend on the hash at all.
\<close>

theorem fallback_determined_by_hash:
  "(uses_fallback url \<longrightarrow>
      sanitize_filename h1 url = ''document_'' @ str_int (h1 url) @ ''.pdf''
      \<and> (sanitize_filename h1 url = sanitize_filename h2 url \<longleftrightarrow> h1 url = h2 url))
   \<and> (\<not> uses_fallback url \<longrightarrow> sanitize_filename h1 url = sanitize_filename h2 url)"
  using str_int_inj [of "h1 url" "h2 url"] by (auto simp: sanitize_filename_cases)

text \<open>
  Claim C10 as amended, at a URL with an empty path and two hash functions that agree on it,
  and at a URL with a basename.
\<close>

theorem fallback_determined_by_hash_witness:
  "uses_fallback ''https://www.icmr.gov.in''
   \<and> sanitize_filename (\<lambda>u. 7) ''https://www.icmr.gov.in'' = ''document_7.pdf''
   \<and> sanitize_filename (\<lambda>u. 7) ''https://www.icmr.gov.in''
      = sanitize_filename (\<lambda>u. int (length u) - 16) ''https://www.icmr.gov.in''
   \<and> \<not> uses_fallback ''https://www.icmr.gov.in/stws/a.pdf''
   \<and> sanitize_filename (\<lambda>u. 1) ''https://www.icmr.gov.in/stws/a.pdf''
      = sanitize_filename (\<lambda>u. 2) ''https://www.icmr.gov.in/stws/a.pdf''"
proof -
  have f: "uses_fallback ''https://www.icmr.gov.in''"
    by (simp add: uses_fallback_def cleaned_basename_def str_defs)
  have n: "\<not> uses_fallback ''https://www.icmr.gov.in/stws/a.pdf''"
    by (simp add: uses_fallback_def cleaned_basename_def illegal_chars_def str_defs)
  have z: "str_int 7 = ''7''"
    by (simp add: str_int_def digits_of.simps digit_char_def digit_chars_def)
  have a: "sanitize_filename (\<lambda>u. 7) ''https://www.icmr.gov.in'' = ''document_7.pdf''"
    using f z fallback_determined_by_hash [of "''https://www.icmr.gov.in''" "\<lambda>u. 7" "\<lambda>u. 7"]
    by simp
  have e: "(\<lambda>u. 7) ''https://www.icmr.gov.in'' = (\<lambda>u. int (length u) - 16) ''https://www.icmr.gov.in''"
    by simp
  have b: "sanitize_filename (\<lambda>u. 7) ''https://www.icmr.gov.in''
      = sanitize_filename (\<lambda>u. int (length u) - 16) ''https://www.icmr.gov.in''"
    by (rule fallback_determined_by_hash
      [of "''https://www.icmr.gov.in''" "\<lambda>u. 7" "\<lambda>u. int (length u) - 16",
       THEN conjunct1, THEN mp, OF f, THEN conjunct2, THEN iffD2, OF e])
  have c: "sanitize_filename (\<lambda>u. 1) ''https://www.icmr.gov.in/stws/a.pdf''
      = sanitize_filename (\<lambda>u. 2) ''https://www.icmr.gov.in/stws/a.pdf''"
    using n fallback_determined_by_hash
      [of "''https://www.icmr.gov.in/stws/a.pdf''" "\<lambda>u. 1" "\<lambda>u. 2"]
    by blast
  from f n a b c show ?thesis
    by blast
qed

section \<open>The queue and its histories\<close>






lemma once_inv_step: "once_inv s \<Longrightarrow> once_inv (crawl_step env s)"
  unfolding crawl_step_def once_inv_def Let_def
  by (cases "queue s")
     (auto simp: visit_def process_pdf_frame add_links_frame split: sum.splits)



lemma count_inv_step:
  assumes "count_inv s" "running s"
  shows "count_inv (crawl_step env s)"
proof -
  from assms(2) obtain url rest where q: "queue s = url # rest"
    by (cases "queue s") (simp_all add: running_def)
  from assms have "pages_crawled s = length (page_calls s)" "pages_crawled s < MAX_PAGES"
    by (simp_all add: count_inv_def running_def)
  then show ?thesis
    unfolding crawl_step_def count_inv_def q list.case Let_def
    by (simp add: visit_def process_pdf_frame add_links_frame split: sum.splits)
qed

lemma link_ok_START_URL: "link_ok START_URL"
  by (simp add: link_ok_def is_valid_url_def START_URL_def str_defs)

lemma crawl_iterates:
  "\<exists>n. crawl env s = (crawl_step env ^^ n) s
       \<and> (\<forall>m<n. running ((crawl_step env ^^ m) s))
       \<and> \<not> running ((crawl_step env ^^ n) s)"
proof (induction env s rule: crawl.induct)
  case (1 env s)
  show ?case
  proof (cases "running s")
    case True
    from "1.IH" [OF True] obtain n where
      n: "crawl env (crawl_step env s) = (crawl_step env ^^ n) (crawl_step env s)"
         "\<forall>m<n. running ((crawl_step env ^^ m) (crawl_step env s))"
         "\<not> running ((crawl_step env ^^ n) (crawl_step env s))"
      by blast
    have "crawl env s = (crawl_step env ^^ Suc n) s"
      using n(1) by (simp add: crawl_unfold(1) [OF True] funpow_swap1)
    moreover have "\<forall>m<Suc n. running ((crawl_step env ^^ m) s)"
    proof (intro allI impI)
      fix m
      assume "m < Suc n"
      then show "running ((crawl_step env ^^ m) s)"
        using True n(2) by (cases m) (simp_all add: funpow_swap1)
    qed
    moreover have "\<not> running ((crawl_step env ^^ Suc n) s)"
      using n(3) by (simp add: funpow_swap1)
    ultimately show ?thesis
      by blast
  next
    case False
    show ?thesis
      by (rule exI [of _ 0]) (simp add: crawl_unfold(2) [OF False] False)
  qed
qed

section \<open>The run on the small site\<close>

lemma demo_urls:
  "is_valid_url demo_a" "is_valid_url demo_b" "\<not> is_valid_url demo_out"
  "endswith (lower demo_a) ''.pdf''" "endswith (lower demo_b) ''.pdf''"
  "\<not> endswith (lower START_URL) ''.pdf''"
  "demo_a \<noteq> demo_b" "demo_a \<noteq> START_URL" "demo_b \<noteq> START_URL" "demo_b \<noteq> demo_a"
  "START_URL \<noteq> demo_a" "START_URL \<noteq> demo_b"
  "strip demo_a = demo_a" "strip (demo_b @ ''#top'') = demo_b @ ''#top''" "strip demo_out = demo_out"
  "before CHR ''#'' demo_a = demo_a" "before CHR ''#'' (demo_b @ ''#top'') = demo_b"
  "before CHR ''#'' demo_out = demo_out"
  "is_relevant_pdf demo_a" "is_relevant_pdf demo_b"
  by (simp_all add: is_valid_url_def is_relevant_pdf_def demo_a_def demo_b_def demo_out_def
        START_URL_def strip_def is_space_def str_defs)

lemma demo_names:
  "sanitize_filename h demo_a = ''stw.pdf''" "sanitize_filename h demo_b = ''stw.pdf''"
  by (simp_all add: sanitize_filename_def illegal_chars_def demo_a_def demo_b_def str_defs)

lemma demo_length: "too_small (Some ''51200'') = Inr False"
  by (simp add: too_small_def py_int_def strip_def is_space_def is_digit_def digit_val_def
        digit_chars_def MIN_FILE_SIZE_def)

lemma demo_save:
  "save_pdf demo_env k demo_a c s
     = write_file ''data/metadata/stw.json'' (JsonFile (demo_md demo_a))
         (write_file ''data/downloads/stw.pdf'' (PdfFile c) s)"
  "save_pdf demo_env k demo_b c s
     = write_file ''data/metadata/stw.json'' (JsonFile (demo_md demo_b))
         (write_file ''data/downloads/stw.pdf'' (PdfFile c) s)"
  by (simp_all add: save_pdf_def demo_names demo_env_def generate_metadata_def demo_md_def
        path_join_def splitext_root_def DOWNLOAD_DIR_def METADATA_DIR_def basename_def
        dirname_slash_def after_def Let_def)

lemma demo_process:
  "process_pdf demo_env demo_a s
     = write_file ''data/metadata/stw.json'' (JsonFile (demo_md demo_a))
         (write_file ''data/downloads/stw.pdf'' (PdfFile (replicate 51200 CHR ''a''))
           (s\<lparr>requests := requests s + 1, pdf_calls := pdf_calls s @ [demo_a]\<rparr>))"
  "process_pdf demo_env demo_b s
     = write_file ''data/metadata/stw.json'' (JsonFile (demo_md demo_b))
         (write_file ''data/downloads/stw.pdf'' (PdfFile (replicate 51200 CHR ''b''))
           (s\<lparr>requests := requests s + 1, pdf_calls := pdf_calls s @ [demo_b]\<rparr>))"
proof -
  have ct: "contains ''application/pdf'' (lower ''Application/PDF'')"
    by (simp add: str_defs)
  have ga: "session_get demo_env k demo_a = Inr (demo_pdf CHR ''a'')" for k
    by (simp add: demo_env_def demo_urls)
  have gb: "session_get demo_env k demo_b = Inr (demo_pdf CHR ''b'')" for k
    by (simp add: demo_env_def demo_urls)
  show "process_pdf demo_env demo_a s
     = write_file ''data/metadata/stw.json'' (JsonFile (demo_md demo_a))
         (write_file ''data/downloads/stw.pdf'' (PdfFile (replicate 51200 CHR ''a''))
           (s\<lparr>requests := requests s + 1, pdf_calls := pdf_calls s @ [demo_a]\<rparr>))"
    by (simp add: process_pdf_def ga demo_pdf_def header_or_empty_def ct demo_urls demo_length
          MIN_FILE_SIZE_def demo_save Let_def)
  show "process_pdf demo_env demo_b s
     = write_file ''data/metadata/stw.json'' (JsonFile (demo_md demo_b))
         (write_file ''data/downloads/stw.pdf'' (PdfFile (replicate 51200 CHR ''b''))
           (s\<lparr>requests := requests s + 1, pdf_calls := pdf_calls s @ [demo_b]\<rparr>))"
    by (simp add: process_pdf_def gb demo_pdf_def header_or_empty_def ct demo_urls demo_length
          MIN_FILE_SIZE_def demo_save Let_def)
qed

lemma demo_run: "crawl demo_env init = demo_final"
proof -
  let ?s1 = "\<lparr>visited = {START_URL}, queue = [demo_a, demo_b, demo_a], pages_crawled = 1,
      requests = 1, files = Map.empty, enqueued = [START_URL, demo_a, demo_b, demo_a],
      dequeued = [START_URL], visit_log = [START_URL], pdf_calls = [],
      page_calls = [START_URL], writes = []\<rparr>"
  let ?s2 = "\<lparr>visited = {START_URL, demo_a}, queue = [demo_b, demo_a], pages_crawled = 1,
      requests = 2,
      files = [''data/downloads/stw.pdf'' \<mapsto> PdfFile (replicate 51200 CHR ''a''),
               ''data/metadata/stw.json'' \<mapsto> JsonFile (demo_md demo_a)],
      enqueued = [START_URL, demo_a, demo_b, demo_a],
      dequeued = [START_URL, demo_a], visit_log = [START_URL, demo_a], pdf_calls = [demo_a],
      page_calls = [START_URL],
      writes = [(''data/downloads/stw.pdf'', PdfFile (replicate 51200 CHR ''a'')),
                (''data/metadata/stw.json'', JsonFile (demo_md demo_a))]\<rparr>"
  let ?s3 = "demo_final\<lparr>queue := [demo_a], dequeued := [START_URL, demo_a, demo_b]\<rparr>"
  have ct: "contains ''text/html'' (lower ''text/html; charset=utf-8'')"
    "\<not> contains ''application/pdf'' (lower ''text/html; charset=utf-8'')"
    by (simp_all add: str_defs)
  have g: "session_get demo_env k START_URL = Inr demo_page" for k
    by (simp add: demo_env_def)
  have j: "urljoin demo_env base href = Inr href" for base href
    by (simp add: demo_env_def)
  have 1: "crawl_step demo_env init = ?s1"
    by (simp add: crawl_step_def init_def demo_urls visit_def g demo_page_def
          header_or_empty_def ct add_link_def j enqueue_def Let_def)
  have 2: "crawl_step demo_env ?s1 = ?s2"
    by (simp add: crawl_step_def demo_urls visit_def demo_process write_file_def Let_def
          insert_commute)
  have 3: "crawl_step demo_env ?s2 = ?s3"
    by (simp add: crawl_step_def demo_urls visit_def demo_process write_file_def Let_def
          demo_final_def insert_commute)
  have 4: "crawl_step demo_env ?s3 = demo_final"
    by (simp add: crawl_step_def demo_urls demo_final_def Let_def)
  have r: "running init" "running ?s1" "running ?s2" "running ?s3" "\<not> running demo_final"
    by (simp_all add: running_def init_def demo_final_def MAX_PAGES_def)
  have "crawl demo_env init = crawl demo_env ?s1"
    using crawl_unfold(1) [OF r(1), of demo_env] by (simp only: 1)
  also have "\<dots> = crawl demo_env ?s2"
    using crawl_unfold(1) [OF r(2), of demo_env] by (simp only: 2)
  also have "\<dots> = crawl demo_env ?s3"
    using crawl_unfold(1) [OF r(3), of demo_env] by (simp only: 3)
  also have "\<dots> = crawl demo_env demo_final"
    using crawl_unfold(1) [OF r(4), of demo_env] by (simp only: 4)
  also have "\<dots> = demo_final"
    by (rule crawl_unfold(2) [OF r(5)])
  finally show ?thesis .
qed

section \<open>What process\_pdf writes\<close>





lemma basename_no_slash: "CHR ''/'' \<notin> set f \<Longrightarrow> basename f = f"
proof -
  assume a: "CHR ''/'' \<notin> set f"
  then have "takeWhile (\<lambda>c. c \<noteq> CHR ''/'') (rev f) = rev f"
    by (auto simp: takeWhile_eq_all_conv)
  then show ?thesis
    by (simp only: basename_def rev_rev_ident)
qed



lemma sanitize_filename_nonempty: "sanitize_filename h url \<noteq> []"
  by (simp add: sanitize_filename_cases uses_fallback_def)









section \<open>The crawl\<close>

lemma init_invs: "once_inv init" "fifo_inv init" "links_inv init" "count_inv init"
  by (simp_all add: once_inv_def fifo_inv_def links_inv_def count_inv_def init_def
        link_ok_START_URL)

text \<open>
  Claim C1: in one run of \<^verbatim>\<open>crawl\<close>, whatever the network answers, no URL is added to
  the visited set twice (the history of the additions has no repetition, and it lists exactly
  the visited set), \<open>process_pdf\<close> is called at most once for a URL, and a URL is parsed as
  a page at most once.
\<close>

theorem crawl_handles_each_url_once:
  "distinct (visit_log (crawl env init))
   \<and> set (visit_log (crawl env init)) = visited (crawl env init)
   \<and> distinct (pdf_calls (crawl env init))
   \<and> distinct (page_calls (crawl env init))"
proof -
  have "once_inv (crawl env init)"
    by (rule crawl_invariant [of once_inv, OF init_invs(1)]) (rule once_inv_step)
  then show ?thesis
    by (simp add: once_inv_def)
qed

text \<open>
  Claim C1 on the small site: the first document is linked twice and occupies two places of
  the queue, since the check before appending looks at the visited set only; it is visited and
  processed once.
\<close>

theorem crawl_handles_each_url_once_witness:
  "count_list (enqueued (crawl demo_env init)) demo_a = 2
   \<and> count_list (visit_log (crawl demo_env init)) demo_a = 1
   \<and> pdf_calls (crawl demo_env init) = [demo_a, demo_b]
   \<and> page_calls (crawl demo_env init) = [START_URL]
   \<and> distinct (visit_log (crawl demo_env init))
   \<and> distinct (pdf_calls (crawl demo_env init))
   \<and> distinct (page_calls (crawl demo_env init))"
proof -
  note once = crawl_handles_each_url_once [of demo_env]
  have "count_list (enqueued (crawl demo_env init)) demo_a = 2"
    "count_list (visit_log (crawl demo_env init)) demo_a = 1"
    "pdf_calls (crawl demo_env init) = [demo_a, demo_b]"
    "page_calls (crawl demo_env init) = [START_URL]"
    by (simp_all add: demo_run demo_final_def demo_urls)
  moreover have "distinct (visit_log (crawl demo_env init))"
    using once by (rule conjunct1)
  moreover have "distinct (pdf_calls (crawl demo_env init))"
    using once by (elim conjE)
  moreover have "distinct (page_calls (crawl demo_env init))"
    using once by (elim conjE)
  ultimately show ?thesis
    by (intro conjI)
qed





text \<open>
  Claim C6: for every network (each page has a finite list of links) the loop stops after a
  finite number \<open>n\<close> of passes, the loop condition holding before each of them; when it stops
  the queue is empty or the page counter has reached \<open>MAX_PAGES\<close>; and the page counter is
  the number of pages parsed, so that documents and failed requests do not count. Failed
  requests and exceptions are branches of \<open>crawl_step\<close>, which returns a state in each.
\<close>

theorem crawl_terminates:
  "\<exists>n. crawl env init = (crawl_step env ^^ n) init
       \<and> (\<forall>m<n. running ((crawl_step env ^^ m) init))
       \<and> (queue (crawl env init) = [] \<or> pages_crawled (crawl env init) = MAX_PAGES)
       \<and> pages_crawled (crawl env init) = length (page_calls (crawl env init))"
proof -
  from crawl_iterates [of env init] obtain n where
    n: "crawl env init = (crawl_step env ^^ n) init"
       "\<forall>m<n. running ((crawl_step env ^^ m) init)"
       "\<not> running ((crawl_step env ^^ n) init)"
    by blast
  have "count_inv (crawl env init)"
    by (rule crawl_invariant [of count_inv, OF init_invs(4)]) (rule count_inv_step)
  then have c: "pages_crawled (crawl env init) = length (page_calls (crawl env init))"
    "pages_crawled (crawl env init) \<le> MAX_PAGES"
    by (simp_all add: count_inv_def)
  from n(1) n(3) have "\<not> running (crawl env init)"
    by simp
  with c(2) have "queue (crawl env init) = [] \<or> pages_crawled (crawl env init) = MAX_PAGES"
    by (auto simp: running_def)
  with n(1) n(2) c(1) show ?thesis
    by blast
qed

text \<open>
  When every request fails, the run visits the start URL, finds the queue empty and ends.
\<close>

lemma failing_run:
  "crawl failing_env init
     = init\<lparr>visited := {START_URL}, queue := [], requests := 1,
            dequeued := [START_URL], visit_log := [START_URL]\<rparr>"
proof -
  let ?t = "init\<lparr>visited := {START_URL}, queue := [], requests := 1,
            dequeued := [START_URL], visit_log := [START_URL]\<rparr>"
  have p: "\<not> endswith (lower START_URL) ''.pdf''"
    by (simp add: START_URL_def str_defs)
  have 1: "crawl_step failing_env init = ?t"
    by (simp add: crawl_step_def init_def p visit_def failing_env_def Let_def)
  have r: "running init" "\<not> running ?t"
    by (simp_all add: running_def init_def MAX_PAGES_def)
  have "crawl failing_env init = crawl failing_env ?t"
    using crawl_unfold(1) [OF r(1), of failing_env] by (simp only: 1)
  also have "\<dots> = ?t"
    by (rule crawl_unfold(2) [OF r(2)])
  finally show ?thesis .
qed

text \<open>
  Claim C6 on the small site (one page parsed, two documents processed, queue empty at the end)
  and on the network where every request fails.
\<close>

theorem crawl_terminates_witness:
  "queue (crawl demo_env init) = []
   \<and> pages_crawled (crawl demo_env init) = 1
   \<and> length (pdf_calls (crawl demo_env init)) = 2
   \<and> queue (crawl failing_env init) = []
   \<and> pages_crawled (crawl failing_env init) = 0
   \<and> (\<exists>n. crawl demo_env init = (crawl_step demo_env ^^ n) init)
   \<and> (\<exists>n. crawl failing_env init = (crawl_step failing_env ^^ n) init)"
proof -
  have "\<exists>n. crawl demo_env init = (crawl_step demo_env ^^ n) init"
    using crawl_terminates [of demo_env] by blast
  moreover have "\<exists>n. crawl failing_env init = (crawl_step failing_env ^^ n) init"
    using crawl_terminates [of failing_env] by blast
  moreover have "queue (crawl demo_env init) = []" "pages_crawled (crawl demo_env init) = 1"
    "length (pdf_calls (crawl demo_env init)) = 2"
    by (simp_all add: demo_run demo_final_def)
  moreover have "queue (crawl failing_env init) = []" "pages_crawled (crawl failing_env init) = 0"
    by (simp_all add: failing_run) (simp_all add: init_def)
  ultimately show ?thesis
    by (intro conjI)
qed

section \<open>The Document Processor\<close>








end
